theory Spec2Isabelle
  imports Main "HOL-Library.Word"
begin

section \<open>Strings\<close>

text \<open>
  A TypeScript string is a sequence of UTF-16 code units. \<open>js\<close> writes an ASCII
  literal of the source as such a sequence.
\<close>

type_synonym jschar = "16 word"
type_synonym jsstring = "jschar list"

definition js :: "string \<Rightarrow> jsstring" where
  "js s = map (\<lambda>c. of_nat (of_char c)) s"

text \<open>Truthiness of a string value: \<open>if (s)\<close> holds for every string but the empty one.\<close>

definition truthy :: "jsstring \<Rightarrow> bool" where
  "truthy s = (s \<noteq> [])"

text \<open>Truthiness of an optional string (\<open>string | undefined\<close>).\<close>

definition truthy_opt :: "jsstring option \<Rightarrow> bool" where
  "truthy_opt t = (case t of None \<Rightarrow> False | Some s \<Rightarrow> truthy s)"

text \<open>\<open>a || b\<close> on an optional string and a string.\<close>

definition js_or :: "jsstring option \<Rightarrow> jsstring \<Rightarrow> jsstring" where
  "js_or a b = (case a of None \<Rightarrow> b | Some s \<Rightarrow> if truthy s then s else b)"

text \<open>
  The characters that the regular expression class \<open>\s\<close> and \<open>String.prototype.trim\<close>
  treat as white space: tab, line feed, vertical tab, form feed, carriage return, space,
  no-break space, the Unicode space separators, the line and paragraph separators and
  the byte order mark.
\<close>

definition is_space :: "jschar \<Rightarrow> bool" where
  "is_space c =
     (c \<in> {0x9, 0xA, 0xB, 0xC, 0xD, 0x20, 0xA0, 0x1680, 0x2028, 0x2029, 0x202F, 0x205F,
            0x3000, 0xFEFF}
      \<or> (0x2000 \<le> c \<and> c \<le> 0x200A))"

definition trim :: "jsstring \<Rightarrow> jsstring" where
  "trim s = rev (dropWhile is_space (rev (dropWhile is_space s)))"

text \<open>\<open>s.includes(t)\<close>: \<open>t\<close> occurs in \<open>s\<close> as a contiguous run of code units.\<close>

primrec includes_js :: "jsstring \<Rightarrow> jsstring \<Rightarrow> bool" where
  "includes_js [] t = (t = [])"
| "includes_js (c # cs) t = (take (length t) (c # cs) = t \<or> includes_js cs t)"

text \<open>
  \<open>Number.prototype.toString\<close> on an integer (every \<open>Date.now()\<close> reading is
  one, far below the magnitude where exponent notation starts): its decimal digits, with
  a minus sign when it is negative.
\<close>

function digits :: "nat \<Rightarrow> jsstring" where
  "digits n = (if n < 10 then [of_nat (48 + n)] else digits (n div 10) @ [of_nat (48 + n mod 10)])"
  by pat_completeness auto
termination
  by (relation "measure (\<lambda>n. n)") auto

declare digits.simps [simp del]

definition toString :: "int \<Rightarrow> jsstring" where
  "toString i = (if i < 0 then 0x2D # digits (nat (- i)) else digits (nat i))"

section \<open>Data model (types.ts)\<close>

datatype Language = en | es

record ArticleSection =
  id_section :: jsstring
  heading :: jsstring
  content :: jsstring

text \<open>
  \<open>correctAnswer\<close> is a number that the source documents as the index of the correct
  option; none of the operations below reads it.
\<close>

record QuizQuestion =
  question :: jsstring
  options :: "jsstring list"
  correctAnswer :: int

record RewikiArticle =
  id_article :: jsstring
  topic :: jsstring
  summary :: jsstring
  sections :: "ArticleSection list"
  imagePrompts :: "jsstring list"
  generatedImage :: "jsstring option"
  realImageUrl :: "jsstring option"
  secondaryImageUrl :: "jsstring option"
  originalSnippet :: jsstring
  lastUpdated :: jsstring
  changeLog :: jsstring
  didYouKnow :: jsstring
  homeworkHelp :: "jsstring list"
  quiz :: "QuizQuestion list"
  relatedTopics :: "jsstring list"
  language :: Language

record RevisionResult =
  accepted :: bool
  newContent :: "jsstring option"
  reasoning :: jsstring

datatype EditType = Fix | Add

section \<open>Stripping code fences (geminiService, cleanJson)\<close>

text \<open>
  \<open>text.replace(/^```json\s*/i, '').replace(/^```\s*/, '').replace(/\s*```$/, '').trim()\<close>

  None of the three expressions has the global or the multi-line flag: each removes at
  most one match, \<open>^\<close> is the start of the text and \<open>$\<close> its very end. Under the
  \<open>i\<close> flag an ASCII letter of the pattern matches its two cases and nothing else.
\<close>

definition canonicalize :: "jschar \<Rightarrow> jschar" where
  "canonicalize c = (if 0x61 \<le> c \<and> c \<le> 0x7A then c - 0x20 else c)"

definition starts_with_ci :: "jsstring \<Rightarrow> jsstring \<Rightarrow> bool" where
  "starts_with_ci pat s =
     (length pat \<le> length s \<and> map canonicalize (take (length pat) s) = map canonicalize pat)"

definition strip_json_fence :: "jsstring \<Rightarrow> jsstring" where
  "strip_json_fence s =
     (if starts_with_ci (js ''```json'') s then dropWhile is_space (drop 7 s) else s)"

definition strip_fence :: "jsstring \<Rightarrow> jsstring" where
  "strip_fence s = (if take 3 s = js ''```'' then dropWhile is_space (drop 3 s) else s)"

text \<open>
  \<open>/\s*```$/\<close> matches when the text ends with the fence; the leftmost match starts
  at the white space that runs up to the fence.
\<close>

definition strip_closing_fence :: "jsstring \<Rightarrow> jsstring" where
  "strip_closing_fence s =
     (if take 3 (rev s) = js ''```'' then rev (dropWhile is_space (drop 3 (rev s))) else s)"

definition cleanJson :: "jsstring \<Rightarrow> jsstring" where
  "cleanJson text = trim (strip_closing_fence (strip_fence (strip_json_fence text)))"

section \<open>The generative service\<close>

text \<open>
  The service is outside the program. A call either rejects or returns a response with
  an optional \<open>text\<close> and the parts of its first candidate (\<open>[]\<close> when there are
  none). What the service answers may depend on the request and on how many calls were
  made before, so it is a function of both; every operation takes the number of calls
  made so far and returns the new one. A request carries the values that the source
  interpolates into its prompt. \<open>JSON.parse\<close> is a platform function: it is the
  parameter \<open>parse\<close>, \<open>None\<close> when it throws, and its result is read at the type
  the source casts it to (\<open>as RewikiArticle\<close>, \<open>as RevisionResult\<close>). A string or a
  list that the payload leaves out reads as the empty one; the guards of the source
  (\<open>!data.lastUpdated\<close>, \<open>data.imagePrompts && data.imagePrompts.length > 0\<close>) do not
  tell the two apart.
\<close>

record inlineData =
  mimeType :: "jsstring option"
  data_b64 :: "jsstring option"

datatype request =
    ArticleRequest jsstring Language
  | ImageRequest jsstring
  | RevisionRequest jsstring jsstring jsstring Language EditType

datatype reply = Rejected | Reply "jsstring option" "inlineData option list"

type_synonym service = "nat \<Rightarrow> request \<Rightarrow> reply"

datatype error = Error jsstring | ServiceError | SyntaxError | TypeError

definition generateContent :: "service \<Rightarrow> nat \<Rightarrow> request \<Rightarrow> reply \<times> nat" where
  "generateContent svc n req = (svc n req, Suc n)"

text \<open>A template literal prints an absent value as \<open>undefined\<close>.\<close>

definition template :: "jsstring option \<Rightarrow> jsstring" where
  "template v = (case v of None \<Rightarrow> js ''undefined'' | Some s \<Rightarrow> s)"

fun first_inline :: "inlineData option list \<Rightarrow> jsstring option" where
  "first_inline [] = None"
| "first_inline (None # ps) = first_inline ps"
| "first_inline (Some d # ps) =
     Some (js ''data:'' @ template (mimeType d) @ js '';base64,'' @ template (data_b64 d))"

definition generateTopicImage :: "service \<Rightarrow> nat \<Rightarrow> jsstring \<Rightarrow> jsstring option \<times> nat" where
  "generateTopicImage svc n prompt =
     (case generateContent svc n (ImageRequest prompt) of
        (Rejected, n') \<Rightarrow> (None, n')
      | (Reply t ps, n') \<Rightarrow> (first_inline ps, n'))"

text \<open>
  The two readings of the system clock: \<open>Date.now()\<close> in milliseconds and
  \<open>new Date().toLocaleDateString()\<close>.
\<close>

record clock =
  now :: int
  localeDate :: jsstring

section \<open>Generating an article (geminiService, generateRewikiArticle)\<close>

definition assemble ::
  "service \<Rightarrow> clock \<Rightarrow> nat \<Rightarrow> Language \<Rightarrow> RewikiArticle \<Rightarrow> RewikiArticle \<times> nat" where
  "assemble svc clk n lang parsed =
     (let data = parsed\<lparr>id_article := toString (now clk), language := lang\<rparr>;
          data = (if \<not> truthy (lastUpdated data) then data\<lparr>lastUpdated := localeDate clk\<rparr>
                  else data)
      in case imagePrompts data of
           [] \<Rightarrow> (data, n)
         | prompt # _ \<Rightarrow>
             (case generateTopicImage svc n prompt of
                (img, n') \<Rightarrow>
                  (if truthy_opt img then data\<lparr>generatedImage := img\<rparr> else data, n')))"

definition generateRewikiArticle ::
  "(jsstring \<Rightarrow> RewikiArticle option) \<Rightarrow> service \<Rightarrow> clock \<Rightarrow> nat \<Rightarrow> jsstring \<Rightarrow> Language
     \<Rightarrow> (error + RewikiArticle) \<times> nat" where
  "generateRewikiArticle parse svc clk n topic_arg lang =
     (case generateContent svc n (ArticleRequest topic_arg lang) of
        (Rejected, n1) \<Rightarrow> (Inl ServiceError, n1)
      | (Reply t ps, n1) \<Rightarrow>
          (case t of
             None \<Rightarrow> (Inl (Error (js ''No content generated'')), n1)
           | Some txt \<Rightarrow>
               if truthy txt then
                 (case parse (cleanJson txt) of
                    None \<Rightarrow> (Inl (Error (js ''Invalid JSON response from AI'')), n1)
                  | Some parsed \<Rightarrow>
                      (case assemble svc clk n1 lang parsed of (data, n2) \<Rightarrow> (Inr data, n2)))
               else (Inl (Error (js ''No content generated'')), n1)))"

section \<open>Judging a revision (geminiService, analyzeRevision)\<close>

text \<open>The body of the \<open>try\<close> block.\<close>

definition analyzeRevision_try ::
  "(jsstring \<Rightarrow> RevisionResult option) \<Rightarrow> service \<Rightarrow> nat \<Rightarrow> jsstring \<Rightarrow> jsstring \<Rightarrow> jsstring
     \<Rightarrow> Language \<Rightarrow> EditType \<Rightarrow> (error + RevisionResult) \<times> nat" where
  "analyzeRevision_try parse svc n currentText userSelection userRequest lang editType =
     (case generateContent svc n
             (RevisionRequest (take 500 currentText) userSelection userRequest lang editType) of
        (Rejected, n1) \<Rightarrow> (Inl ServiceError, n1)
      | (Reply t ps, n1) \<Rightarrow>
          (case t of
             None \<Rightarrow> (Inl (Error (js ''Analysis failed'')), n1)
           | Some txt \<Rightarrow>
               if truthy txt then
                 (case parse (cleanJson txt) of
                    None \<Rightarrow> (Inl SyntaxError, n1)
                  | Some r \<Rightarrow> (Inr r, n1))
               else (Inl (Error (js ''Analysis failed'')), n1)))"

definition unavailable :: RevisionResult where
  "unavailable =
     \<lparr>accepted = False, newContent = None,
      reasoning = js ''AI Service unavailable or response invalid.''\<rparr>"

text \<open>The whole function: the \<open>catch\<close> clause turns every error into a verdict.\<close>

definition analyzeRevision ::
  "(jsstring \<Rightarrow> RevisionResult option) \<Rightarrow> service \<Rightarrow> nat \<Rightarrow> jsstring \<Rightarrow> jsstring \<Rightarrow> jsstring
     \<Rightarrow> Language \<Rightarrow> EditType \<Rightarrow> (error + RevisionResult) \<times> nat" where
  "analyzeRevision parse svc n currentText userSelection userRequest lang editType =
     (case analyzeRevision_try parse svc n currentText userSelection userRequest lang editType of
        (Inl e, n1) \<Rightarrow> (Inr unavailable, n1)
      | (Inr r, n1) \<Rightarrow> (Inr r, n1))"

section \<open>Applying an accepted revision (ArticleView, submitRevision)\<close>

text \<open>
  The selection the view holds: the selected text (its \<open>top\<close> and \<open>left\<close> are
  screen coordinates that only the renderer reads), or \<open>null\<close>.
\<close>

record Selection =
  text_sel :: jsstring

definition published :: "RewikiArticle \<Rightarrow> EditType \<Rightarrow> ArticleSection list \<Rightarrow> RewikiArticle" where
  "published article editType newSections =
     article\<lparr>sections := newSections,
             changeLog := changeLog article @ js '' | '' @
               (if editType = Add then js ''Added section'' else js ''Fixed info'')\<rparr>"

text \<open>The \<open>else\<close> branch: fix existing sections.\<close>

definition fixExisting ::
  "RewikiArticle \<Rightarrow> Selection option \<Rightarrow> EditType \<Rightarrow> RevisionResult
     \<Rightarrow> error + ArticleSection list" where
  "fixExisting article selection editType result =
     (let newSections =
            map (\<lambda>s. case selection of
                        None \<Rightarrow> s
                      | Some sel \<Rightarrow>
                          if includes_js (content s) (text_sel sel)
                          then s\<lparr>content := js_or (newContent result) (content s)\<rparr>
                          else s)
                (sections article)
      in case (selection, newContent result) of
           (None, Some c) \<Rightarrow>
             if truthy c \<and> editType = Fix then
               (case newSections of
                  [] \<Rightarrow> Inl TypeError
                | s0 # rest \<Rightarrow> Inr (s0\<lparr>content := c\<rparr> # rest))
             else Inr newSections
         | _ \<Rightarrow> Inr newSections)"

text \<open>
  The callback that runs once a verdict was accepted. It ends by handing the new article
  to \<open>onUpdateArticle\<close>; \<open>Inl\<close> is the exception that leaves the callback before that.
  \<open>t\<close> is the reading of \<open>Date.now()\<close>.
\<close>

definition applyRevision ::
  "RewikiArticle \<Rightarrow> Selection option \<Rightarrow> EditType \<Rightarrow> RevisionResult \<Rightarrow> int
     \<Rightarrow> error + RewikiArticle" where
  "applyRevision article selection editType result t =
     (case newContent result of
        Some c \<Rightarrow>
          if editType = Add \<and> truthy c then
            Inr (published article editType
                   (sections article @
                      [\<lparr>id_section = toString t, heading = js ''New Section'', content = c\<rparr>]))
          else map_sum id (published article editType) (fixExisting article selection editType result)
      | None \<Rightarrow>
          map_sum id (published article editType) (fixExisting article selection editType result))"

text \<open>
  What the view shows after a verdict: the article is replaced only when the verdict is
  accepted.
\<close>

definition onVerdict ::
  "RewikiArticle \<Rightarrow> Selection option \<Rightarrow> EditType \<Rightarrow> RevisionResult \<Rightarrow> int
     \<Rightarrow> error + RewikiArticle" where
  "onVerdict article selection editType result t =
     (if accepted result then applyRevision article selection editType result t
      else Inr article)"

section \<open>History (App.tsx, addToHistory)\<close>

text \<open>
  The shell keeps the history list in component state and mirrors it in
  \<open>localStorage\<close>, a store from keys to strings. \<open>JSON.stringify\<close> is a platform
  function: it is the parameter \<open>stringify\<close>.
\<close>

record app =
  history :: "RewikiArticle list"
  localStorage :: "jsstring \<rightharpoonup> jsstring"

definition addToHistory ::
  "(RewikiArticle list \<Rightarrow> jsstring) \<Rightarrow> app \<Rightarrow> RewikiArticle \<Rightarrow> app" where
  "addToHistory stringify st article =
     (let prev = history st;
          filtered = filter (\<lambda>a. topic a \<noteq> topic article) prev;
          updated = take 10 (article # filtered)
      in st\<lparr>history := updated,
            localStorage := (localStorage st)(js ''rewiki_history'' \<mapsto> stringify updated)\<rparr>)"

text \<open>The state at mount, before anything is loaded: \<open>useState([])\<close>.\<close>

definition initial_app :: "(jsstring \<rightharpoonup> jsstring) \<Rightarrow> app" where
  "initial_app store = \<lparr>history = [], localStorage = store\<rparr>"

text \<open>A run of insertions, oldest first.\<close>

definition addAll :: "(RewikiArticle list \<Rightarrow> jsstring) \<Rightarrow> app \<Rightarrow> RewikiArticle list \<Rightarrow> app" where
  "addAll stringify st arts = foldl (addToHistory stringify) st arts"

text \<open>
  The history as the specification words it: most recent first, one entry per topic
  (the most recent one), at most ten entries. \<open>latest_per_topic\<close> reads a list that is
  already most-recent-first and keeps the first entry of every topic. \<open>loaded\<close> is
  the list the run started from; its entries are older than every insertion.
\<close>

fun latest_per_topic :: "RewikiArticle list \<Rightarrow> RewikiArticle list" where
  "latest_per_topic [] = []"
| "latest_per_topic (a # as) = a # filter (\<lambda>b. topic b \<noteq> topic a) (latest_per_topic as)"

definition spec_history :: "RewikiArticle list \<Rightarrow> RewikiArticle list \<Rightarrow> RewikiArticle list" where
  "spec_history loaded arts = take 10 (latest_per_topic (rev arts @ loaded))"

section \<open>Notions of the specification\<close>

text \<open>
  A response the operations cannot use: no text, empty text, or text that
  \<open>JSON.parse\<close> rejects once the fences are stripped.
\<close>

definition unusable :: "(jsstring \<Rightarrow> 'a option) \<Rightarrow> jsstring option \<Rightarrow> bool" where
  "unusable parse t =
     (case t of None \<Rightarrow> True | Some txt \<Rightarrow> txt = [] \<or> parse (cleanJson txt) = None)"

text \<open>
  The outline of a JSON text (RFC 8259): around optional white space, a value, which
  begins with a brace, a bracket, a quote, a minus sign, a digit or the first letter of
  \<open>true\<close>, \<open>false\<close>, \<open>null\<close>, and ends with a closing brace or bracket, a quote,
  a digit or the last letter of those three words.
\<close>

definition json_first :: "jschar \<Rightarrow> bool" where
  "json_first c =
     (c \<in> {0x7B, 0x5B, 0x22, 0x2D, 0x74, 0x66, 0x6E} \<or> (0x30 \<le> c \<and> c \<le> 0x39))"

definition json_last :: "jschar \<Rightarrow> bool" where
  "json_last c = (c \<in> {0x7D, 0x5D, 0x22, 0x65, 0x6C} \<or> (0x30 \<le> c \<and> c \<le> 0x39))"

definition json_shaped :: "jsstring \<Rightarrow> bool" where
  "json_shaped p =
     (case trim p of [] \<Rightarrow> False | c # cs \<Rightarrow> json_first c \<and> json_last (last (c # cs)))"

section \<open>Sample data\<close>

definition sample_article :: "jsstring \<Rightarrow> RewikiArticle" where
  "sample_article tp =
     \<lparr>id_article = [], topic = tp, summary = js ''A summary.'',
      sections =
        [\<lparr>id_section = js ''s1'', heading = js ''Orbit'', content = js ''It orbits Earth.''\<rparr>,
         \<lparr>id_section = js ''s2'', heading = js ''Surface'', content = js ''Craters cover it.''\<rparr>],
      imagePrompts = [], generatedImage = None, realImageUrl = None,
      secondaryImageUrl = None, originalSnippet = [], lastUpdated = [],
      changeLog = js ''Simplified'', didYouKnow = [], homeworkHelp = [], quiz = [],
      relatedTopics = [], language = es\<rparr>"

text \<open>The text of the JSON object whose only member is the topic.\<close>

definition sample_payload :: "jsstring \<Rightarrow> jsstring" where
  "sample_payload tp =
     js ''{'' @ [0x22] @ js ''topic'' @ [0x22] @ js '':'' @ [0x22] @ tp @ [0x22] @ js ''}''"

definition sample_parse :: "jsstring \<Rightarrow> RewikiArticle option" where
  "sample_parse s =
     (if s = sample_payload (js ''Moon'') then Some (sample_article (js ''Moon''))
      else if s = sample_payload (js ''Mars'') then Some (sample_article (js ''Mars''))
      else None)"

definition sample_service :: service where
  "sample_service n req =
     (case req of ArticleRequest tp lang \<Rightarrow> Reply (Some (sample_payload tp)) []
      | _ \<Rightarrow> Rejected)"

definition sample_verdict :: "jsstring option \<Rightarrow> RevisionResult" where
  "sample_verdict c = \<lparr>accepted = True, newContent = c, reasoning = js ''Verified.''\<rparr>"

section \<open>Facts about strings\<close>

lemma js_literals:
  "js ''```json'' = [0x60, 0x60, 0x60, 0x6A, 0x73, 0x6F, 0x6E]"
  "js ''```'' = [0x60, 0x60, 0x60]"
  by (simp_all add: js_def)

lemma includes_js_iff: "includes_js s t \<longleftrightarrow> (\<exists>p q. s = p @ t @ q)"
proof (induction s)
  case Nil
  show ?case by auto
next
  case (Cons c cs)
  have "take (length t) (c # cs) = t \<longleftrightarrow> (\<exists>q. c # cs = t @ q)"
    by (metis append_eq_conv_conj append_take_drop_id)
  moreover have "(\<exists>p q. c # cs = p @ t @ q) \<longleftrightarrow>
                   (\<exists>q. c # cs = t @ q) \<or> (\<exists>p q. cs = p @ t @ q)"
  proof
    assume "\<exists>p q. c # cs = p @ t @ q"
    then obtain p q where pq: "c # cs = p @ t @ q" by blast
    show "(\<exists>q. c # cs = t @ q) \<or> (\<exists>p q. cs = p @ t @ q)"
    proof (cases p)
      case Nil
      with pq show ?thesis by auto
    next
      case (Cons a p')
      with pq have "cs = p' @ t @ q" by simp
      then show ?thesis by blast
    qed
  next
    assume "(\<exists>q. c # cs = t @ q) \<or> (\<exists>p q. cs = p @ t @ q)"
    then show "\<exists>p q. c # cs = p @ t @ q"
    proof
      assume "\<exists>q. c # cs = t @ q"
      then obtain q where "c # cs = [] @ t @ q" by auto
      then show ?thesis by blast
    next
      assume "\<exists>p q. cs = p @ t @ q"
      then obtain p q where "c # cs = (c # p) @ t @ q" by auto
      then show ?thesis by blast
    qed
  qed
  ultimately show ?case using Cons.IH by simp
qed

section \<open>Applying a revision\<close>

lemma js_or_falsy: "c = None \<or> c = Some [] \<Longrightarrow> js_or c b = b"
  by (auto simp: js_or_def truthy_def)

lemma js_or_truthy: "R \<noteq> [] \<Longrightarrow> js_or (Some R) b = R"
  by (simp add: js_or_def truthy_def)

lemma fixExisting_falsy:
  assumes "newContent result = None \<or> newContent result = Some []"
  shows "fixExisting article selection editType result = Inr (sections article)"
proof -
  have m: "map (\<lambda>s. case selection of None \<Rightarrow> s
              | Some sel \<Rightarrow> if includes_js (content s) (text_sel sel)
                           then s\<lparr>content := js_or (newContent result) (content s)\<rparr> else s)
            (sections article) = sections article"
    by (rule map_idI) (simp add: js_or_falsy [OF assms] split: option.splits)
  from assms show ?thesis
    unfolding fixExisting_def Let_def m
    by (auto simp: truthy_def split: option.splits)
qed

lemma fixExisting_selection:
  assumes "newContent result = Some R" "R \<noteq> []"
  shows "fixExisting article (Some sel) editType result =
           Inr (map (\<lambda>s. if includes_js (content s) (text_sel sel) then s\<lparr>content := R\<rparr> else s)
                  (sections article))"
  using assms by (simp add: fixExisting_def js_or_truthy)

lemma fixExisting_general:
  assumes "newContent result = Some R" "R \<noteq> []"
  shows "fixExisting article None Fix result =
           (case sections article of [] \<Rightarrow> Inl TypeError
            | s0 # rest \<Rightarrow> Inr (s0\<lparr>content := R\<rparr> # rest))"
  using assms by (simp add: fixExisting_def truthy_def)

lemma map_single_match:
  assumes "i < length xs" "P (xs ! i)" "\<forall>j < length xs. j \<noteq> i \<longrightarrow> \<not> P (xs ! j)"
  shows "map (\<lambda>s. if P s then f s else s) xs = xs[i := f (xs ! i)]"
proof (rule nth_equalityI)
  show "length (map (\<lambda>s. if P s then f s else s) xs) = length (xs[i := f (xs ! i)])"
    by simp
next
  fix j
  assume "j < length (map (\<lambda>s. if P s then f s else s) xs)"
  then have j: "j < length xs" by simp
  show "map (\<lambda>s. if P s then f s else s) xs ! j = xs[i := f (xs ! i)] ! j"
  proof (cases "j = i")
    case True
    with assms show ?thesis by simp
  next
    case False
    with assms j show ?thesis by simp
  qed
qed

lemma sample_sections:
  "sections (sample_article tp) =
     [\<lparr>id_section = js ''s1'', heading = js ''Orbit'', content = js ''It orbits Earth.''\<rparr>,
      \<lparr>id_section = js ''s2'', heading = js ''Surface'', content = js ''Craters cover it.''\<rparr>]"
  by (simp add: sample_article_def)

lemma sample_verdict_simps:
  "accepted (sample_verdict c)" "newContent (sample_verdict c) = c"
  by (simp_all add: sample_verdict_def)

text \<open>
  C4. Edit kind Fix, the excerpt occurs in the body of exactly one section (the one at
  index \<open>i\<close>), the verdict is accepted and carries the non-empty replacement \<open>X\<close>:
  the published article has \<open>X\<close> as the body of section \<open>i\<close> and every other section
  as it was.
\<close>

theorem fix_single_match:
  assumes "accepted result" "newContent result = Some X" "X \<noteq> []"
    and "i < length (sections article)"
    and "includes_js (content (sections article ! i)) (text_sel sel)"
    and "\<forall>j < length (sections article). j \<noteq> i \<longrightarrow>
           \<not> includes_js (content (sections article ! j)) (text_sel sel)"
  shows "onVerdict article (Some sel) Fix result t =
           Inr (article\<lparr>sections := (sections article)[i := (sections article ! i)\<lparr>content := X\<rparr>],
                  changeLog := changeLog article @ js '' | '' @ js ''Fixed info''\<rparr>)"
proof -
  have "map (\<lambda>s. if includes_js (content s) (text_sel sel) then s\<lparr>content := X\<rparr> else s)
          (sections article) = (sections article)[i := (sections article ! i)\<lparr>content := X\<rparr>]"
    using assms(4-6) by (rule map_single_match)
  with assms(1-3) show ?thesis
    by (simp add: onVerdict_def applyRevision_def fixExisting_selection published_def)
qed

theorem fix_single_match_witness:
  "includes_js (content (sections (sample_article (js ''Moon'')) ! 0)) (js ''orbits'')
   \<and> \<not> includes_js (content (sections (sample_article (js ''Moon'')) ! 1)) (js ''orbits'')
   \<and> sections (sample_article (js ''Moon'')) \<noteq> []
   \<and> map_sum id sections
        (onVerdict (sample_article (js ''Moon'')) (Some \<lparr>text_sel = js ''orbits''\<rparr>) Fix
           (sample_verdict (Some (js ''X''))) 1700000000000)
      = Inr [\<lparr>id_section = js ''s1'', heading = js ''Orbit'', content = js ''X''\<rparr>,
             \<lparr>id_section = js ''s2'', heading = js ''Surface'', content = js ''Craters cover it.''\<rparr>]"
proof -
  let ?a = "sample_article (js ''Moon'')"
  let ?sel = "\<lparr>text_sel = js ''orbits''\<rparr>"
  have h1: "accepted (sample_verdict (Some (js ''X'')))"
    and h2: "newContent (sample_verdict (Some (js ''X''))) = Some (js ''X'')"
    and h3: "js ''X'' \<noteq> []"
    by (simp_all add: sample_verdict_simps js_def)
  have h4: "0 < length (sections ?a)"
    by (simp add: sample_sections)
  have h5: "includes_js (content (sections ?a ! 0)) (text_sel ?sel)"
    by (simp add: sample_sections js_def)
  have h6: "\<forall>j < length (sections ?a). j \<noteq> 0 \<longrightarrow>
              \<not> includes_js (content (sections ?a ! j)) (text_sel ?sel)"
    by (simp add: sample_sections js_def less_Suc_eq)
  have n1: "\<not> includes_js (content (sections ?a ! 1)) (js ''orbits'')"
    by (simp add: sample_sections js_def)
  show ?thesis
    using fix_single_match [OF h1 h2 h3 h4 h5 h6, of 1700000000000] h5 n1
    by (simp add: sample_sections)
qed

text \<open>
  C6. Edit kind Fix with an excerpt, accepted verdict with the non-empty replacement
  \<open>R\<close>: every section whose body contains the excerpt gets the body \<open>R\<close>, however
  many there are, and every other section stays as it was.
\<close>

theorem fix_replaces_every_match:
  assumes "accepted result" "newContent result = Some R" "R \<noteq> []"
  shows "onVerdict article (Some sel) Fix result t =
           Inr (article\<lparr>sections :=
                    map (\<lambda>s. if includes_js (content s) (text_sel sel) then s\<lparr>content := R\<rparr> else s)
                      (sections article),
                  changeLog := changeLog article @ js '' | '' @ js ''Fixed info''\<rparr>)"
  using assms
  by (simp add: onVerdict_def applyRevision_def fixExisting_selection published_def)

theorem fix_replaces_every_match_witness:
  "map_sum id sections
     (onVerdict (sample_article (js ''Moon'')) (Some \<lparr>text_sel = js ''r''\<rparr>) Fix
        (sample_verdict (Some (js ''R''))) 1700000000000)
   = Inr [\<lparr>id_section = js ''s1'', heading = js ''Orbit'', content = js ''R''\<rparr>,
          \<lparr>id_section = js ''s2'', heading = js ''Surface'', content = js ''R''\<rparr>]"
proof -
  have h1: "accepted (sample_verdict (Some (js ''R'')))"
    and h2: "newContent (sample_verdict (Some (js ''R''))) = Some (js ''R'')"
    and h3: "js ''R'' \<noteq> []"
    by (simp_all add: sample_verdict_simps js_def)
  show ?thesis
    using fix_replaces_every_match [OF h1 h2 h3, of "sample_article (js ''Moon'')"
        "\<lparr>text_sel = js ''r''\<rparr>" 1700000000000]
    by (simp add: sample_sections js_def)
qed

text \<open>
  C7. Edit kind Fix without an excerpt, accepted verdict with the non-empty replacement
  \<open>R\<close>: when the article has a section, the body of the first one becomes \<open>R\<close>, the
  others stay as they were and no exception is raised; when it has none, writing to the
  first section raises and nothing is published.
\<close>

theorem general_fix_first_section:
  assumes "accepted result" "newContent result = Some R" "R \<noteq> []"
  shows "(sections article \<noteq> [] \<longrightarrow>
            onVerdict article None Fix result t =
              Inr (article\<lparr>sections := (hd (sections article))\<lparr>content := R\<rparr> # tl (sections article),
                     changeLog := changeLog article @ js '' | '' @ js ''Fixed info''\<rparr>))
       \<and> (sections article = [] \<longrightarrow> onVerdict article None Fix result t = Inl TypeError)"
  using assms
  by (cases "sections article")
     (simp_all add: onVerdict_def applyRevision_def fixExisting_general published_def)

theorem general_fix_first_section_witness:
  "sections (sample_article (js ''Moon'')) \<noteq> []
   \<and> map_sum id sections
       (onVerdict (sample_article (js ''Moon'')) None Fix (sample_verdict (Some (js ''R'')))
          1700000000000)
     = Inr [\<lparr>id_section = js ''s1'', heading = js ''Orbit'', content = js ''R''\<rparr>,
            \<lparr>id_section = js ''s2'', heading = js ''Surface'', content = js ''Craters cover it.''\<rparr>]
   \<and> onVerdict ((sample_article (js ''Moon''))\<lparr>sections := []\<rparr>) None Fix
       (sample_verdict (Some (js ''R''))) 1700000000000 = Inl TypeError"
proof -
  have h1: "accepted (sample_verdict (Some (js ''R'')))"
    and h2: "newContent (sample_verdict (Some (js ''R''))) = Some (js ''R'')"
    and h3: "js ''R'' \<noteq> []"
    by (simp_all add: sample_verdict_simps js_def)
  show ?thesis
    using general_fix_first_section [OF h1 h2 h3, of "sample_article (js ''Moon'')" 1700000000000]
      general_fix_first_section [OF h1 h2 h3,
        of "(sample_article (js ''Moon''))\<lparr>sections := []\<rparr>" 1700000000000]
    by (simp add: sample_sections)
qed

text \<open>
  Edit kind Add, accepted verdict with the non-empty content \<open>Y\<close>: the published
  article has the old sections followed by one new section, whose body is \<open>Y\<close>, whose
  heading is the fixed text \<open>New Section\<close> and whose identifier is the decimal
  clock reading \<open>t\<close>; the change log gets the note \<open>Added section\<close>.
\<close>

theorem add_appends_section:
  assumes "accepted result" "newContent result = Some Y" "Y \<noteq> []"
  shows "onVerdict article selection Add result t =
           Inr (article\<lparr>sections := sections article @
                    [\<lparr>id_section = toString t, heading = js ''New Section'', content = Y\<rparr>],
                  changeLog := changeLog article @ js '' | '' @ js ''Added section''\<rparr>)"
  using assms
  by (simp add: onVerdict_def applyRevision_def published_def truthy_def)

theorem add_appends_section_witness:
  "map_sum id (\<lambda>a. (sections a, changeLog a))
     (onVerdict (sample_article (js ''Moon'')) None Add (sample_verdict (Some (js ''Y'')))
        1700000000000)
   = Inr ([\<lparr>id_section = js ''s1'', heading = js ''Orbit'', content = js ''It orbits Earth.''\<rparr>,
           \<lparr>id_section = js ''s2'', heading = js ''Surface'', content = js ''Craters cover it.''\<rparr>,
           \<lparr>id_section = js ''1700000000000'', heading = js ''New Section'', content = js ''Y''\<rparr>],
          js ''Simplified | Added section'')"
proof -
  have h1: "accepted (sample_verdict (Some (js ''Y'')))"
    and h2: "newContent (sample_verdict (Some (js ''Y''))) = Some (js ''Y'')"
    and h3: "js ''Y'' \<noteq> []"
    by (simp_all add: sample_verdict_simps js_def)
  have t: "toString 1700000000000 = js ''1700000000000''"
    by (simp add: toString_def digits.simps js_def)
  show ?thesis
    using add_appends_section [OF h1 h2 h3, of "sample_article (js ''Moon'')" None 1700000000000]
    by (simp add: sample_article_def t) (simp add: js_def)
qed

text \<open>
  The new identifier is not among those of the existing sections exactly when none of
  them is the decimal clock reading.
\<close>

lemma add_section_id_distinct_iff:
  assumes "accepted result" "newContent result = Some Y" "Y \<noteq> []"
    and "distinct (map id_section (sections article))"
    and "onVerdict article selection Add result t = Inr article'"
  shows "distinct (map id_section (sections article'))
           \<longleftrightarrow> toString t \<notin> id_section ` set (sections article)"
  using assms add_appends_section [OF assms(1-3), of article selection t] by auto


text \<open>
  C10. Accepted verdict whose content is absent or empty: whatever the edit kind and
  the selection, the published article has the sections it had (none appended, no body
  replaced) and only its change log grows, by \<open>Added section\<close> when the edit kind is
  Add, although no section was added, and by \<open>Fixed info\<close> otherwise.
\<close>

theorem empty_content_only_logs:
  assumes "accepted result" "newContent result = None \<or> newContent result = Some []"
  shows "onVerdict article selection editType result t =
           Inr (article\<lparr>changeLog := changeLog article @ js '' | '' @
                  (if editType = Add then js ''Added section'' else js ''Fixed info'')\<rparr>)"
proof -
  have "applyRevision article selection editType result t =
          map_sum id (published article editType) (fixExisting article selection editType result)"
    using assms(2) by (auto simp: applyRevision_def truthy_def)
  with assms show ?thesis
    by (simp add: onVerdict_def fixExisting_falsy published_def)
qed

theorem empty_content_only_logs_witness:
  "map_sum id (\<lambda>a. (sections a = sections (sample_article (js ''Moon'')), changeLog a))
     (onVerdict (sample_article (js ''Moon'')) None Add (sample_verdict None) 1700000000000)
   = Inr (True, js ''Simplified | Added section'')
   \<and> map_sum id (\<lambda>a. (sections a = sections (sample_article (js ''Moon'')), changeLog a))
     (onVerdict (sample_article (js ''Moon'')) (Some \<lparr>text_sel = js ''orbits''\<rparr>) Fix
        (sample_verdict (Some [])) 1700000000000)
   = Inr (True, js ''Simplified | Fixed info'')"
proof -
  have h1: "accepted (sample_verdict c)" for c
    by (simp add: sample_verdict_simps)
  have h2: "newContent (sample_verdict None) = None \<or> newContent (sample_verdict None) = Some []"
    and h3: "newContent (sample_verdict (Some [])) = None
             \<or> newContent (sample_verdict (Some [])) = Some []"
    by (simp_all add: sample_verdict_simps)
  show ?thesis
    using empty_content_only_logs [OF h1 h2, of "sample_article (js ''Moon'')" None Add
        1700000000000]
      empty_content_only_logs [OF h1 h3, of "sample_article (js ''Moon'')"
        "Some \<lparr>text_sel = js ''orbits''\<rparr>" Fix 1700000000000]
    by (simp add: sample_article_def) (simp add: js_def)
qed


section \<open>Failures of the service\<close>


lemmas clean_defs =
  cleanJson_def strip_json_fence_def strip_fence_def strip_closing_fence_def trim_def
  starts_with_ci_def canonicalize_def is_space_def

text \<open>
  C2. The service answers the article request with no text, with empty text, or with
  text that does not parse once the fences are stripped: \<open>generateRewikiArticle\<close>
  throws one error and returns no article, and it has made exactly one call to the
  service (it does not ask again, and it does not ask for an image).
\<close>

theorem generate_fails_without_json:
  assumes "svc n (ArticleRequest topic_arg lang) = Reply t ps" "unusable parse t"
  shows "generateRewikiArticle parse svc clk n topic_arg lang =
           (Inl (Error (if truthy_opt t then js ''Invalid JSON response from AI''
                        else js ''No content generated'')), Suc n)"
  using assms
  by (auto simp: generateRewikiArticle_def generateContent_def unusable_def truthy_opt_def
        truthy_def split: option.splits)

theorem generate_fails_without_json_witness:
  "unusable sample_parse (Some (js ''Sorry, I cannot help.''))
   \<and> generateRewikiArticle sample_parse (\<lambda>n req. Reply (Some (js ''Sorry, I cannot help.'')) [])
       \<lparr>now = 1700000000000, localeDate = js ''11/14/2023''\<rparr> 0 (js ''Moon'') en
     = (Inl (Error (js ''Invalid JSON response from AI'')), 1)
   \<and> unusable sample_parse None
   \<and> generateRewikiArticle sample_parse (\<lambda>n req. Reply None [])
       \<lparr>now = 1700000000000, localeDate = js ''11/14/2023''\<rparr> 0 (js ''Moon'') en
     = (Inl (Error (js ''No content generated'')), 1)"
proof -
  have h1: "(\<lambda>n req. Reply (Some (js ''Sorry, I cannot help.'')) []) (0::nat)
              (ArticleRequest (js ''Moon'') en) = Reply (Some (js ''Sorry, I cannot help.'')) []"
    and h3: "(\<lambda>n req. Reply None []) (0::nat) (ArticleRequest (js ''Moon'') en) = Reply None []"
    by simp_all
  have c: "cleanJson (js ''Sorry, I cannot help.'') = js ''Sorry, I cannot help.''"
    by (simp add: clean_defs js_def)
  have h2: "unusable sample_parse (Some (js ''Sorry, I cannot help.''))"
    unfolding unusable_def option.case c
    by (simp add: sample_parse_def sample_payload_def js_def)
  have h4: "unusable sample_parse None"
    by (simp add: unusable_def)
  show ?thesis
    using generate_fails_without_json [OF h1 h2] generate_fails_without_json [OF h3 h4] h2 h4
    by (simp add: truthy_opt_def truthy_def js_def)
qed

text \<open>
  C3. \<open>analyzeRevision\<close> returns a verdict whatever the service does, after one call,
  and never an error. When the call is rejected, or the answer has no text, empty text or
  text that does not parse, the verdict is the fixed one: not accepted, with the
  non-empty reasoning \<open>AI Service unavailable or response invalid.\<close>
\<close>

theorem analyzeRevision_never_raises:
  "(\<exists>r. analyzeRevision parse svc n currentText userSelection userRequest lang editType
          = (Inr r, Suc n))
   \<and> ((svc n (RevisionRequest (take 500 currentText) userSelection userRequest lang editType)
          = Rejected
       \<or> (\<exists>t ps. svc n (RevisionRequest (take 500 currentText) userSelection userRequest lang
                        editType) = Reply t ps \<and> unusable parse t))
      \<longrightarrow> analyzeRevision parse svc n currentText userSelection userRequest lang editType
            = (Inr unavailable, Suc n))
   \<and> \<not> accepted unavailable
   \<and> reasoning unavailable = js ''AI Service unavailable or response invalid.''
   \<and> reasoning unavailable \<noteq> []"
  by (auto simp: analyzeRevision_def analyzeRevision_try_def generateContent_def unusable_def
        truthy_def unavailable_def js_def split: reply.splits option.splits sum.splits)

theorem analyzeRevision_never_raises_witness:
  "analyzeRevision (\<lambda>s. None) (\<lambda>n req. Rejected) 0 (js ''[]'') (js ''General Article Update'')
     (js ''It is outdated'') en Fix
   = (Inr \<lparr>accepted = False, newContent = None,
           reasoning = js ''AI Service unavailable or response invalid.''\<rparr>, 1)
   \<and> analyzeRevision (\<lambda>s. None) (\<lambda>n req. Reply (Some (js ''Sorry'')) []) 0 (js ''[]'')
       (js ''General Article Update'') (js ''It is outdated'') en Fix
   = (Inr \<lparr>accepted = False, newContent = None,
           reasoning = js ''AI Service unavailable or response invalid.''\<rparr>, 1)"
proof -
  have u: "unusable (\<lambda>s. None :: RevisionResult option) (Some (js ''Sorry''))"
    by (simp add: unusable_def)
  show ?thesis
    using analyzeRevision_never_raises [of "\<lambda>s. None" "\<lambda>n req. Rejected" 0 "js ''[]''"
        "js ''General Article Update''" "js ''It is outdated''" en Fix]
      analyzeRevision_never_raises [of "\<lambda>s. None" "\<lambda>n req. Reply (Some (js ''Sorry'')) []" 0
        "js ''[]''" "js ''General Article Update''" "js ''It is outdated''" en Fix] u
    by (simp add: unavailable_def)
qed


section \<open>Fenced payloads\<close>

lemma space_not_backtick: "is_space c \<Longrightarrow> c \<noteq> 0x60"
  by (auto simp: is_space_def)

lemma space_not_j: "is_space c \<Longrightarrow> canonicalize c \<noteq> 0x4A"
  by (auto simp: is_space_def canonicalize_def)

lemma json_first_not_backtick: "json_first c \<Longrightarrow> c \<noteq> 0x60"
  by (auto simp: json_first_def)

lemma json_first_not_j: "json_first c \<Longrightarrow> canonicalize c \<noteq> 0x4A"
  by (auto simp: json_first_def canonicalize_def)

lemma json_last_not_backtick: "json_last c \<Longrightarrow> c \<noteq> 0x60"
  by (auto simp: json_last_def)

lemma canonicalize_backtick: "canonicalize c = 0x60 \<Longrightarrow> c = 0x60"
  by (auto simp: canonicalize_def split: if_splits)

lemma dropWhile_spaces:
  "\<forall>c\<in>set ws. is_space c \<Longrightarrow> dropWhile is_space (ws @ xs) = dropWhile is_space xs"
  by (simp add: dropWhile_append2)

lemma dropWhile_core:
  "core \<noteq> [] \<Longrightarrow> \<not> is_space (hd core) \<Longrightarrow> dropWhile is_space (core @ xs) = core @ xs"
  by (cases core) simp_all

lemma last_dropWhile: "dropWhile P xs \<noteq> [] \<Longrightarrow> last (dropWhile P xs) = last xs"
  by (induction xs) (auto split: if_splits)

text \<open>\<open>trim\<close> returns the text between the white space at the two ends.\<close>

lemma trim_core:
  assumes "core \<noteq> []" "\<not> is_space (hd core)" "\<not> is_space (last core)"
    and "\<forall>c\<in>set l. is_space c" "\<forall>c\<in>set r. is_space c"
  shows "trim (l @ core @ r) = core"
proof -
  have "dropWhile is_space (l @ core @ r) = core @ r"
    using assms by (simp add: dropWhile_spaces dropWhile_core)
  moreover have "dropWhile is_space (rev r @ rev core) = rev core"
  proof -
    have "dropWhile is_space (rev r @ rev core) = dropWhile is_space (rev core @ [])"
      using assms(5) by (simp add: dropWhile_spaces)
    also have "\<dots> = rev core @ []"
      using assms(1,3) by (intro dropWhile_core) (simp_all add: hd_rev)
    finally show ?thesis by simp
  qed
  ultimately show ?thesis by (simp add: trim_def)
qed

lemma trim_decomp:
  "\<exists>l r. p = l @ trim p @ r \<and> (\<forall>c\<in>set l. is_space c) \<and> (\<forall>c\<in>set r. is_space c)"
proof -
  let ?q = "dropWhile is_space p"
  let ?l = "takeWhile is_space p"
  let ?r = "rev (takeWhile is_space (rev ?q))"
  have "trim p @ ?r = rev (takeWhile is_space (rev ?q) @ dropWhile is_space (rev ?q))"
    by (simp only: trim_def rev_append)
  also have "\<dots> = rev (rev ?q)"
    by (simp only: takeWhile_dropWhile_id)
  finally have q: "?q = trim p @ ?r"
    by simp
  have "p = ?l @ ?q" by simp
  with q have "p = ?l @ trim p @ ?r" by simp
  moreover have "\<forall>c\<in>set ?l. is_space c"
    by (auto dest: set_takeWhileD)
  moreover have "\<forall>c\<in>set ?r. is_space c"
    by (auto dest: set_takeWhileD)
  ultimately show ?thesis by blast
qed

lemma trim_ends:
  assumes "trim p \<noteq> []"
  shows "\<not> is_space (hd (trim p))" "\<not> is_space (last (trim p))"
proof -
  let ?q = "dropWhile is_space p"
  let ?d = "dropWhile is_space (rev ?q)"
  from assms have d: "?d \<noteq> []" by (simp add: trim_def)
  then have q: "?q \<noteq> []" by (cases ?q) simp_all
  have "last (trim p) = hd ?d"
    using d by (simp add: trim_def last_rev)
  then show "\<not> is_space (last (trim p))"
    using d by (simp add: hd_dropWhile)
  from d have "last ?d = last (rev ?q)" by (rule last_dropWhile)
  then have "hd (trim p) = hd ?q"
    using d q by (simp add: trim_def hd_rev last_rev)
  then show "\<not> is_space (hd (trim p))"
    using q by (simp add: hd_dropWhile)
qed

text \<open>The three replacements leave a text alone that has no fence at its ends.\<close>

lemma starts_with_ci_hd:
  assumes "starts_with_ci (js ''```json'') s"
  shows "s \<noteq> [] \<and> hd s = 0x60"
proof (cases s)
  case Nil
  with assms show ?thesis by (simp add: starts_with_ci_def js_literals)
next
  case (Cons a list)
  with assms have "canonicalize a = canonicalize 0x60"
    by (simp add: starts_with_ci_def js_literals)
  then have "canonicalize a = 0x60" by (simp add: canonicalize_def)
  then have "a = 0x60" by (rule canonicalize_backtick)
  with Cons show ?thesis by simp
qed

lemma strip_json_fence_id: "s = [] \<or> hd s \<noteq> 0x60 \<Longrightarrow> strip_json_fence s = s"
  using starts_with_ci_hd [of s] by (auto simp: strip_json_fence_def)

lemma strip_fence_id: "s = [] \<or> hd s \<noteq> 0x60 \<Longrightarrow> strip_fence s = s"
  by (cases s) (auto simp: strip_fence_def js_literals)

lemma strip_closing_fence_id: "s = [] \<or> last s \<noteq> 0x60 \<Longrightarrow> strip_closing_fence s = s"
proof (cases "rev s")
  case Nil
  then show ?thesis by (simp add: strip_closing_fence_def js_literals)
next
  case (Cons c cs)
  assume a: "s = [] \<or> last s \<noteq> 0x60"
  from Cons have "s \<noteq> []" by auto
  then have "last s = hd (rev s)" by (simp add: hd_rev)
  with a Cons have "c \<noteq> 0x60" by auto
  with Cons show ?thesis by (auto simp: strip_closing_fence_def js_literals)
qed

lemma strip_closing_fence_core:
  assumes "core \<noteq> []" "\<not> is_space (last core)" "\<forall>c\<in>set ws. is_space c"
  shows "strip_closing_fence (core @ ws @ js ''```'') = core"
proof -
  have "dropWhile is_space (rev ws @ rev core) = dropWhile is_space (rev core @ [])"
    using assms(3) by (simp add: dropWhile_spaces)
  also have "\<dots> = rev core @ []"
    using assms(1,2) by (intro dropWhile_core) (simp_all add: hd_rev)
  finally show ?thesis
    by (simp add: strip_closing_fence_def js_literals)
qed

lemma hd_spaces_core:
  assumes "core \<noteq> []" "\<forall>c\<in>set ws. is_space c"
  shows "is_space (hd (ws @ core @ xs)) \<or> hd (ws @ core @ xs) = hd core"
  using assms by (cases ws) simp_all

lemma last_core_spaces:
  assumes "core \<noteq> []" "\<forall>c\<in>set ws. is_space c"
  shows "is_space (last (xs @ core @ ws)) \<or> last (xs @ core @ ws) = last core"
  using assms by (cases ws rule: rev_cases) simp_all

lemma cleanJson_unwrapped:
  assumes "core \<noteq> []" "\<not> is_space (hd core)" "\<not> is_space (last core)"
    and "hd core \<noteq> 0x60" "last core \<noteq> 0x60"
    and "\<forall>c\<in>set l. is_space c" "\<forall>c\<in>set r. is_space c"
  shows "cleanJson (l @ core @ r) = core"
proof -
  let ?p = "l @ core @ r"
  have "hd ?p \<noteq> 0x60"
    using hd_spaces_core [OF assms(1,6), of r] assms(4) space_not_backtick by auto
  then have 1: "strip_json_fence ?p = ?p" and 2: "strip_fence ?p = ?p"
    by (simp_all add: strip_json_fence_id strip_fence_id)
  have "last ?p \<noteq> 0x60"
    using last_core_spaces [OF assms(1,7), of l] assms(5) space_not_backtick by auto
  then have 3: "strip_closing_fence ?p = ?p"
    by (simp add: strip_closing_fence_id)
  show ?thesis
    unfolding cleanJson_def 1 2 3 using assms(1,2,3,6,7) by (rule trim_core)
qed

lemma cleanJson_after_opening:
  assumes "core \<noteq> []" "\<not> is_space (hd core)" "\<not> is_space (last core)"
    and "\<forall>c\<in>set r. is_space c" "\<forall>c\<in>set ws2. is_space c"
  shows "trim (strip_closing_fence (core @ r @ ws2 @ js ''```'')) = core"
proof -
  have "\<forall>c\<in>set (r @ ws2). is_space c" using assms(4,5) by auto
  with assms(1,3) have "strip_closing_fence (core @ (r @ ws2) @ js ''```'') = core"
    by (rule strip_closing_fence_core)
  moreover have "trim ([] @ core @ []) = core"
    using assms(1-3) by (intro trim_core) simp_all
  ultimately show ?thesis by simp
qed

lemma cleanJson_json_fence:
  assumes "core \<noteq> []" "\<not> is_space (hd core)" "\<not> is_space (last core)"
    and "hd core \<noteq> 0x60"
    and "\<forall>c\<in>set l. is_space c" "\<forall>c\<in>set r. is_space c"
    and "\<forall>c\<in>set ws1. is_space c" "\<forall>c\<in>set ws2. is_space c"
  shows "cleanJson (js ''```json'' @ ws1 @ (l @ core @ r) @ ws2 @ js ''```'') = core"
proof -
  let ?rest = "core @ r @ ws2 @ js ''```''"
  have sp: "\<forall>c\<in>set (ws1 @ l). is_space c" using assms(5,7) by auto
  have "strip_json_fence (js ''```json'' @ (ws1 @ l) @ ?rest) = dropWhile is_space ((ws1 @ l) @ ?rest)"
    by (simp add: strip_json_fence_def starts_with_ci_def js_literals)
  also have "\<dots> = dropWhile is_space ?rest"
    using sp by (rule dropWhile_spaces)
  also have "\<dots> = ?rest"
    using assms(1,2) by (rule dropWhile_core)
  finally have 1: "strip_json_fence (js ''```json'' @ ws1 @ (l @ core @ r) @ ws2 @ js ''```'') = ?rest"
    by simp
  have "hd ?rest \<noteq> 0x60" using assms(1,4) by simp
  then have 2: "strip_fence ?rest = ?rest" by (simp add: strip_fence_id)
  show ?thesis
    unfolding cleanJson_def 1 2 using assms(1,2,3,6,8) by (rule cleanJson_after_opening)
qed

lemma cleanJson_plain_fence:
  assumes "core \<noteq> []" "\<not> is_space (hd core)" "\<not> is_space (last core)"
    and "canonicalize (hd core) \<noteq> 0x4A"
    and "\<forall>c\<in>set l. is_space c" "\<forall>c\<in>set r. is_space c"
    and "\<forall>c\<in>set ws1. is_space c" "\<forall>c\<in>set ws2. is_space c"
  shows "cleanJson (js ''```'' @ ws1 @ (l @ core @ r) @ ws2 @ js ''```'') = core"
proof -
  let ?rest = "core @ r @ ws2 @ js ''```''"
  let ?w = "js ''```'' @ (ws1 @ l) @ ?rest"
  have sp: "\<forall>c\<in>set (ws1 @ l). is_space c" using assms(5,7) by auto
  have ne: "(ws1 @ l) @ core @ (r @ ws2 @ js ''```'') \<noteq> []" using assms(1) by simp
  have "canonicalize (hd ((ws1 @ l) @ core @ (r @ ws2 @ js ''```''))) \<noteq> 0x4A"
    using hd_spaces_core [OF assms(1) sp, of "r @ ws2 @ js ''```''"] assms(4) space_not_j
    by auto
  then have "\<not> starts_with_ci (js ''```json'') ?w"
    using ne by (cases "(ws1 @ l) @ core @ (r @ ws2 @ js ''```'')")
      (auto simp: starts_with_ci_def js_literals canonicalize_def)
  then have 1: "strip_json_fence ?w = ?w" by (simp add: strip_json_fence_def)
  have "strip_fence ?w = dropWhile is_space ((ws1 @ l) @ ?rest)"
    by (simp add: strip_fence_def js_literals)
  also have "\<dots> = dropWhile is_space ?rest"
    using sp by (rule dropWhile_spaces)
  also have "\<dots> = ?rest"
    using assms(1,2) by (rule dropWhile_core)
  finally have 2: "strip_fence ?w = ?rest" .
  have "cleanJson ?w = core"
    unfolding cleanJson_def 1 2 using assms(1,2,3,6,8) by (rule cleanJson_after_opening)
  then show ?thesis by simp
qed

text \<open>A text with the outline of JSON, fenced or not, is cleaned to its trimmed self.\<close>

lemma cleanJson_fenced:
  assumes "json_shaped p" "\<forall>c\<in>set ws1. is_space c" "\<forall>c\<in>set ws2. is_space c"
  shows "cleanJson p = trim p"
    and "cleanJson (js ''```json'' @ ws1 @ p @ ws2 @ js ''```'') = trim p"
    and "cleanJson (js ''```'' @ ws1 @ p @ ws2 @ js ''```'') = trim p"
proof -
  from assms(1) have ne: "trim p \<noteq> []"
    and first: "json_first (hd (trim p))" and last: "json_last (last (trim p))"
    by (auto simp: json_shaped_def split: list.splits)
  note ends = trim_ends [OF ne]
  obtain l r where p: "p = l @ trim p @ r"
    and l: "\<forall>c\<in>set l. is_space c" and r: "\<forall>c\<in>set r. is_space c"
    using trim_decomp [of p] by blast
  have "cleanJson (l @ trim p @ r) = trim p"
    using ne ends json_first_not_backtick [OF first] json_last_not_backtick [OF last] l r
    by (rule cleanJson_unwrapped)
  with p show "cleanJson p = trim p" by simp
  have "cleanJson (js ''```json'' @ ws1 @ (l @ trim p @ r) @ ws2 @ js ''```'') = trim p"
    using ne ends json_first_not_backtick [OF first] l r assms(2,3)
    by (rule cleanJson_json_fence)
  with p show "cleanJson (js ''```json'' @ ws1 @ p @ ws2 @ js ''```'') = trim p" by simp
  have "cleanJson (js ''```'' @ ws1 @ (l @ trim p @ r) @ ws2 @ js ''```'') = trim p"
    using ne ends json_first_not_j [OF first] l r assms(2,3)
    by (rule cleanJson_plain_fence)
  with p show "cleanJson (js ''```'' @ ws1 @ p @ ws2 @ js ''```'') = trim p" by simp
qed

lemma json_shaped_nonempty: "json_shaped p \<Longrightarrow> p \<noteq> []"
  by (auto simp: json_shaped_def trim_def)

lemma generate_depends_on_cleaned_text:
  assumes "svc n (ArticleRequest topic_arg lang) = Reply (Some p) ps"
    and "p \<noteq> []" "w \<noteq> []" "cleanJson w = cleanJson p"
  shows "generateRewikiArticle parse
           (svc(n := (svc n)(ArticleRequest topic_arg lang := Reply (Some w) ps)))
           clk n topic_arg lang
         = generateRewikiArticle parse svc clk n topic_arg lang"
proof -
  let ?svc = "svc(n := (svc n)(ArticleRequest topic_arg lang := Reply (Some w) ps))"
  have img: "generateTopicImage ?svc (Suc n) prompt = generateTopicImage svc (Suc n) prompt"
    for prompt
    by (simp add: generateTopicImage_def generateContent_def)
  have "assemble ?svc clk (Suc n) lang parsed = assemble svc clk (Suc n) lang parsed" for parsed
    unfolding assemble_def img by (rule refl)
  with assms show ?thesis
    by (simp add: generateRewikiArticle_def generateContent_def truthy_def
          split: option.splits)
qed

text \<open>
  The fences at the two ends of the response. \<open>p\<close> has the outline of a JSON text, and
  \<open>generateRewikiArticle\<close> is run once on a service that answers with \<open>p\<close> as it
  is, once on one that answers with \<open>p\<close> between an opening fence (\<open>```json\<close> or
  \<open>```\<close>) and a closing fence, with any white space between the fences and \<open>p\<close>.
  The text that reaches \<open>JSON.parse\<close> is the same in both runs, so the parse result is
  the same (it succeeds on the fenced text when it does on the plain one) and the two
  runs return the same result.
\<close>

theorem fenced_payload_same_result:
  assumes "json_shaped p"
    and "\<forall>c\<in>set ws1. is_space c" "\<forall>c\<in>set ws2. is_space c"
    and "fence = js ''```json'' \<or> fence = js ''```''"
    and "svc n (ArticleRequest topic_arg lang) = Reply (Some p) ps"
  shows "cleanJson (fence @ ws1 @ p @ ws2 @ js ''```'') = cleanJson p
       \<and> parse (cleanJson (fence @ ws1 @ p @ ws2 @ js ''```'')) = parse (cleanJson p)
       \<and> generateRewikiArticle parse
           (svc(n := (svc n)(ArticleRequest topic_arg lang :=
                               Reply (Some (fence @ ws1 @ p @ ws2 @ js ''```'')) ps)))
           clk n topic_arg lang
         = generateRewikiArticle parse svc clk n topic_arg lang"
proof -
  let ?w = "fence @ ws1 @ p @ ws2 @ js ''```''"
  have eq: "cleanJson ?w = cleanJson p"
    using assms(4) cleanJson_fenced [OF assms(1-3)] by auto
  have "?w \<noteq> []" by (simp add: js_def)
  with assms(5) json_shaped_nonempty [OF assms(1)] have
    "generateRewikiArticle parse
       (svc(n := (svc n)(ArticleRequest topic_arg lang := Reply (Some ?w) ps)))
       clk n topic_arg lang
     = generateRewikiArticle parse svc clk n topic_arg lang"
    using eq by (rule generate_depends_on_cleaned_text)
  with eq show ?thesis by simp
qed

lemma sample_payload_moon:
  "sample_payload (js ''Moon'') =
     [0x7B, 0x22, 0x74, 0x6F, 0x70, 0x69, 0x63, 0x22, 0x3A, 0x22, 0x4D, 0x6F, 0x6F, 0x6E, 0x22,
      0x7D]"
  by (simp add: sample_payload_def js_def)

lemma sample_payload_mars:
  "sample_payload (js ''Mars'') =
     [0x7B, 0x22, 0x74, 0x6F, 0x70, 0x69, 0x63, 0x22, 0x3A, 0x22, 0x4D, 0x61, 0x72, 0x73, 0x22,
      0x7D]"
  by (simp add: sample_payload_def js_def)

lemma sample_payload_shaped:
  "json_shaped (sample_payload (js ''Moon''))" "json_shaped (sample_payload (js ''Mars''))"
  by (simp_all add: sample_payload_moon sample_payload_mars json_shaped_def trim_def
        is_space_def json_first_def json_last_def)

lemma sample_payload_clean:
  "cleanJson (sample_payload (js ''Moon'')) = sample_payload (js ''Moon'')"
  "cleanJson (sample_payload (js ''Mars'')) = sample_payload (js ''Mars'')"
  by (simp_all add: sample_payload_moon sample_payload_mars clean_defs js_literals)

lemma sample_run:
  "generateRewikiArticle sample_parse sample_service clk n (js ''Moon'') lang
     = (Inr ((sample_article (js ''Moon''))
              \<lparr>id_article := toString (now clk), lastUpdated := localeDate clk,
               language := lang\<rparr>), Suc n)"
  "generateRewikiArticle sample_parse sample_service clk n (js ''Mars'') lang
     = (Inr ((sample_article (js ''Mars''))
              \<lparr>id_article := toString (now clk), lastUpdated := localeDate clk,
               language := lang\<rparr>), Suc n)"
proof -
  have "sample_payload (js ''Mars'') \<noteq> sample_payload (js ''Moon'')"
    by (simp add: sample_payload_moon sample_payload_mars)
  then have p: "sample_parse (sample_payload (js ''Moon'')) = Some (sample_article (js ''Moon''))"
    "sample_parse (sample_payload (js ''Mars'')) = Some (sample_article (js ''Mars''))"
    by (simp_all add: sample_parse_def)
  have a: "assemble sample_service clk m lang (sample_article tp)
             = ((sample_article tp)\<lparr>id_article := toString (now clk),
                  lastUpdated := localeDate clk, language := lang\<rparr>, m)" for m tp
    by (simp add: assemble_def sample_article_def truthy_def)
  have t: "truthy (sample_payload tp)" for tp
    by (simp add: truthy_def sample_payload_def)
  show "generateRewikiArticle sample_parse sample_service clk n (js ''Moon'') lang
     = (Inr ((sample_article (js ''Moon''))
              \<lparr>id_article := toString (now clk), lastUpdated := localeDate clk,
               language := lang\<rparr>), Suc n)"
    by (simp add: generateRewikiArticle_def generateContent_def sample_service_def t
          sample_payload_clean p a)
  show "generateRewikiArticle sample_parse sample_service clk n (js ''Mars'') lang
     = (Inr ((sample_article (js ''Mars''))
              \<lparr>id_article := toString (now clk), lastUpdated := localeDate clk,
               language := lang\<rparr>), Suc n)"
    by (simp add: generateRewikiArticle_def generateContent_def sample_service_def t
          sample_payload_clean p a)
qed

theorem fenced_payload_same_result_witness:
  "json_shaped (sample_payload (js ''Moon''))
   \<and> is_space 0xA
   \<and> cleanJson (js ''```json'' @ [0xA] @ sample_payload (js ''Moon'') @ [0xA] @ js ''```'')
       = sample_payload (js ''Moon'')
   \<and> generateRewikiArticle sample_parse
        (sample_service(0 := (sample_service 0)(ArticleRequest (js ''Moon'') en :=
           Reply (Some (js ''```json'' @ [0xA] @ sample_payload (js ''Moon'') @ [0xA]
                          @ js ''```'')) [])))
        \<lparr>now = 1700000000000, localeDate = js ''11/14/2023''\<rparr> 0 (js ''Moon'') en
     = (Inr ((sample_article (js ''Moon''))
              \<lparr>id_article := toString 1700000000000, lastUpdated := js ''11/14/2023'',
               language := en\<rparr>), 1)"
proof -
  have h1: "json_shaped (sample_payload (js ''Moon''))"
    by (rule sample_payload_shaped)
  have h2: "\<forall>c\<in>set [0xA]. is_space c"
    by (simp add: is_space_def)
  have h4: "js ''```json'' = js ''```json'' \<or> js ''```json'' = js ''```''"
    by simp
  have h5: "sample_service 0 (ArticleRequest (js ''Moon'') en)
              = Reply (Some (sample_payload (js ''Moon''))) []"
    by (simp add: sample_service_def)
  show ?thesis
    using fenced_payload_same_result [where svc = sample_service and n = 0
        and parse = sample_parse
        and clk = "\<lparr>now = 1700000000000, localeDate = js ''11/14/2023''\<rparr>",
        OF h1 h2 h2 h4 h5] h1 h2
    by (simp add: sample_payload_clean sample_run)
qed


text \<open>
  The anchors \<open>^\<close> and \<open>$\<close> are applied before \<open>trim\<close>: white space outside the
  fences keeps a fence in the cleaned text.
\<close>

lemma cleanJson_space_after_fence:
  "cleanJson (js ''```json'' @ [0xA] @ sample_payload (js ''Moon'') @ [0xA] @ js ''```'' @ [0xA])
     = sample_payload (js ''Moon'') @ [0xA] @ js ''```''"
  by (simp add: sample_payload_moon clean_defs js_literals)

text \<open>
  This holds for every payload: white space after the closing fence leaves the closing
  fence in the cleaned text, which therefore is not the cleaned text of the payload and
  does not end as a JSON text ends.
\<close>

lemma cleanJson_space_after_closing_fence:
  assumes "json_shaped p"
    and "\<forall>c\<in>set ws1. is_space c" "\<forall>c\<in>set ws2. is_space c"
    and "\<forall>c\<in>set ws3. is_space c" "ws3 \<noteq> []"
  shows "\<exists>r. (\<forall>c\<in>set r. is_space c)
           \<and> cleanJson (js ''```json'' @ ws1 @ p @ ws2 @ js ''```'' @ ws3)
               = trim p @ r @ js ''```''"
proof -
  from assms(1) have ne: "trim p \<noteq> []" and first: "json_first (hd (trim p))"
    by (auto simp: json_shaped_def split: list.splits)
  note ends = trim_ends [OF ne]
  obtain l r where p: "p = l @ trim p @ r"
    and l: "\<forall>c\<in>set l. is_space c" and r: "\<forall>c\<in>set r. is_space c"
    using trim_decomp [of p] by blast
  let ?core = "trim p @ (r @ ws2) @ js ''```''"
  let ?x = "?core @ ws3"
  have sp: "\<forall>c\<in>set (ws1 @ l). is_space c" using assms(2) l by auto
  have core: "?core \<noteq> []" "\<not> is_space (hd ?core)" "\<not> is_space (last ?core)"
    using ne ends(1) by (simp_all add: js_literals is_space_def)
  have "strip_json_fence (js ''```json'' @ (ws1 @ l) @ ?x) = dropWhile is_space ((ws1 @ l) @ ?x)"
    by (simp add: strip_json_fence_def starts_with_ci_def js_literals)
  also have "\<dots> = dropWhile is_space ?x"
    using sp by (rule dropWhile_spaces)
  also have "\<dots> = ?x"
    using core(1,2) by (rule dropWhile_core)
  finally have 1: "strip_json_fence (js ''```json'' @ (ws1 @ l) @ ?x) = ?x" .
  have "hd ?x \<noteq> 0x60"
    using ne json_first_not_backtick [OF first] by simp
  then have 2: "strip_fence ?x = ?x" by (simp add: strip_fence_id)
  have "is_space (last ?x)" using assms(4,5) by simp
  then have "last ?x \<noteq> 0x60" by (rule space_not_backtick)
  then have 3: "strip_closing_fence ?x = ?x" by (simp add: strip_closing_fence_id)
  have "trim ([] @ ?core @ ws3) = ?core"
    using core _ assms(4) by (rule trim_core) simp
  then have 4: "trim ?x = ?core" by simp
  have k: "cleanJson (js ''```json'' @ (ws1 @ l) @ ?x) = ?core"
    unfolding cleanJson_def 1 2 3 4 by (rule refl)
  have e: "js ''```json'' @ ws1 @ p @ ws2 @ js ''```'' @ ws3 = js ''```json'' @ (ws1 @ l) @ ?x"
    by (subst p) simp
  have "cleanJson (js ''```json'' @ ws1 @ p @ ws2 @ js ''```'' @ ws3)
          = trim p @ (r @ ws2) @ js ''```''"
    unfolding e by (rule k)
  moreover have "\<forall>c\<in>set (r @ ws2). is_space c" using r assms(3) by auto
  ultimately show ?thesis by blast
qed

lemma cleanJson_space_after_closing_fence_differs:
  assumes "json_shaped p"
    and "\<forall>c\<in>set ws1. is_space c" "\<forall>c\<in>set ws2. is_space c"
    and "\<forall>c\<in>set ws3. is_space c" "ws3 \<noteq> []"
  shows "cleanJson (js ''```json'' @ ws1 @ p @ ws2 @ js ''```'' @ ws3) \<noteq> cleanJson p"
    and "\<not> json_shaped (cleanJson (js ''```json'' @ ws1 @ p @ ws2 @ js ''```'' @ ws3))"
proof -
  obtain r where r: "\<forall>c\<in>set r. is_space c"
    and c: "cleanJson (js ''```json'' @ ws1 @ p @ ws2 @ js ''```'' @ ws3) = trim p @ r @ js ''```''"
    using cleanJson_space_after_closing_fence [OF assms] by blast
  have "cleanJson p = trim p"
    using assms(1) by (rule cleanJson_fenced(1) [where ?ws1.0 = "[]" and ?ws2.0 = "[]"]) simp_all
  with c show "cleanJson (js ''```json'' @ ws1 @ p @ ws2 @ js ''```'' @ ws3) \<noteq> cleanJson p"
    by (simp add: js_literals)
  from assms(1) have ne: "trim p \<noteq> []"
    by (auto simp: json_shaped_def split: list.splits)
  let ?core = "trim p @ r @ js ''```''"
  have "trim ([] @ ?core @ []) = ?core"
    using ne trim_ends(1) [OF ne] by (intro trim_core) (simp_all add: js_literals is_space_def)
  then have "trim ?core = ?core" by simp
  moreover have "last ?core = 0x60" by (simp add: js_literals)
  ultimately have "\<not> json_shaped ?core"
    using json_last_not_backtick [of "last ?core"]
    by (auto simp: json_shaped_def split: list.splits)
  with c show "\<not> json_shaped (cleanJson (js ''```json'' @ ws1 @ p @ ws2 @ js ''```'' @ ws3))"
    by simp
qed

text \<open>
  C9. A payload wrapped in fences is not always handled like the bare payload. The
  service answers with the JSON object of the topic Moon between \<open>```json\<close> and
  \<open>```\<close>, each followed by a line feed. The anchored replacements run before
  \<open>trim\<close>, so the closing fence, which is not at the very end, stays in the text
  handed to \<open>JSON.parse\<close>, and \<open>generateRewikiArticle\<close> throws; on the bare payload
  it returns the article.
\<close>

theorem fenced_payload_trailing_newline:
  "cleanJson (js ''```json'' @ [0xA] @ sample_payload (js ''Moon'') @ [0xA] @ js ''```'' @ [0xA])
     = sample_payload (js ''Moon'') @ [0xA] @ js ''```''
   \<and> \<not> json_shaped (sample_payload (js ''Moon'') @ [0xA] @ js ''```'')
   \<and> generateRewikiArticle sample_parse
        (sample_service(0 := (sample_service 0)(ArticleRequest (js ''Moon'') en :=
           Reply (Some (js ''```json'' @ [0xA] @ sample_payload (js ''Moon'') @ [0xA]
                          @ js ''```'' @ [0xA])) [])))
        \<lparr>now = 1700000000000, localeDate = js ''11/14/2023''\<rparr> 0 (js ''Moon'') en
     = (Inl (Error (js ''Invalid JSON response from AI'')), 1)
   \<and> generateRewikiArticle sample_parse sample_service
        \<lparr>now = 1700000000000, localeDate = js ''11/14/2023''\<rparr> 0 (js ''Moon'') en
     = (Inr ((sample_article (js ''Moon''))
              \<lparr>id_article := toString 1700000000000, lastUpdated := js ''11/14/2023'',
               language := en\<rparr>), 1)"
proof -
  let ?left = "sample_payload (js ''Moon'') @ [0xA] @ js ''```''"
  have c: "cleanJson (js ''```json'' @ [0xA] @ sample_payload (js ''Moon'') @ [0xA] @ js ''```''
             @ [0xA]) = ?left"
    by (rule cleanJson_space_after_fence)
  have s: "\<not> json_shaped ?left"
    by (simp add: sample_payload_moon js_literals json_shaped_def trim_def is_space_def
          json_first_def json_last_def)
  have p: "sample_parse ?left = None"
    by (simp add: sample_parse_def sample_payload_moon sample_payload_mars js_literals)
  have ne: "js ''```json'' @ [0xA] @ sample_payload (js ''Moon'') @ [0xA] @ js ''```'' @ [0xA]
              \<noteq> []"
    by (simp add: js_def)
  have g: "generateRewikiArticle sample_parse
        (sample_service(0 := (sample_service 0)(ArticleRequest (js ''Moon'') en :=
           Reply (Some (js ''```json'' @ [0xA] @ sample_payload (js ''Moon'') @ [0xA]
                          @ js ''```'' @ [0xA])) [])))
        \<lparr>now = 1700000000000, localeDate = js ''11/14/2023''\<rparr> 0 (js ''Moon'') en
     = (Inl (Error (js ''Invalid JSON response from AI'')), 1)"
    unfolding generateRewikiArticle_def generateContent_def
    by (simp only: fun_upd_same prod.case reply.case option.case truthy_def ne c p
          if_True not_False_eq_True One_nat_def)
  have b: "generateRewikiArticle sample_parse sample_service
        \<lparr>now = 1700000000000, localeDate = js ''11/14/2023''\<rparr> 0 (js ''Moon'') en
     = (Inr ((sample_article (js ''Moon''))
              \<lparr>id_article := toString 1700000000000, lastUpdated := js ''11/14/2023'',
               language := en\<rparr>), 1)"
    by (simp add: sample_run)
  show ?thesis
    by (rule conjI [OF c conjI [OF s conjI [OF g b]]])
qed

section \<open>Identifier and language of a generated article\<close>

lemma digits_nonempty: "digits n \<noteq> []"
  by (subst digits.simps) simp

lemma jschar_of_nat_inj:
  "a < 65536 \<Longrightarrow> b < 65536 \<Longrightarrow> (of_nat a :: jschar) = of_nat b \<Longrightarrow> a = b"
  by (simp add: word_of_nat_eq_iff take_bit_nat_eq_self)

lemma digit_char_inj:
  assumes "a < 10" "b < 10" "(of_nat (48 + a) :: jschar) = of_nat (48 + b)"
  shows "a = b"
proof -
  have "48 + a < 65536" "48 + b < 65536"
    using assms(1,2) by simp_all
  then have "48 + a = 48 + b"
    using assms(3) by (rule jschar_of_nat_inj)
  then show ?thesis by simp
qed

lemma digits_inj: "digits n = digits m \<Longrightarrow> n = m"
proof (induction n arbitrary: m rule: digits.induct)
  case (1 n)
  show ?case
  proof (cases "n < 10")
    case True
    then have n: "digits n = [of_nat (48 + n)]"
      by (subst digits.simps) simp
    show ?thesis
    proof (cases "m < 10")
      case mt: True
      then have "digits m = [of_nat (48 + m)]"
        by (subst digits.simps) simp
      with n "1.prems" have "(of_nat (48 + n) :: jschar) = of_nat (48 + m)" by simp
      with True mt show ?thesis by (rule digit_char_inj)
    next
      case False
      then have "digits m = digits (m div 10) @ [of_nat (48 + m mod 10)]"
        by (subst digits.simps) simp
      with n "1.prems" have "digits (m div 10) = []" by simp
      with digits_nonempty show ?thesis by blast
    qed
  next
    case False
    then have n: "digits n = digits (n div 10) @ [of_nat (48 + n mod 10)]"
      by (subst digits.simps) simp
    show ?thesis
    proof (cases "m < 10")
      case True
      then have "digits m = [of_nat (48 + m)]"
        by (subst digits.simps) simp
      with n "1.prems" have "digits (n div 10) = []" by simp
      with digits_nonempty show ?thesis by blast
    next
      case mf: False
      then have "digits m = digits (m div 10) @ [of_nat (48 + m mod 10)]"
        by (subst digits.simps) simp
      with n "1.prems" have d: "digits (n div 10) = digits (m div 10)"
        and l: "(of_nat (48 + n mod 10) :: jschar) = of_nat (48 + m mod 10)"
        by simp_all
      from False d have "n div 10 = m div 10" by (rule "1.IH")
      moreover have "n mod 10 = m mod 10"
        using _ _ l by (rule digit_char_inj) simp_all
      ultimately show ?thesis by (metis div_mult_mod_eq)
    qed
  qed
qed

lemma digits_no_minus: "0x2D \<notin> set (digits n)"
proof (induction n rule: digits.induct)
  case (1 n)
  have c: "(of_nat (48 + d) :: jschar) \<noteq> 0x2D" if "d < 10" for d
  proof
    assume "(of_nat (48 + d) :: jschar) = 0x2D"
    then have "(of_nat (48 + d) :: jschar) = of_nat 45" by simp
    moreover have "48 + d < 65536" "(45::nat) < 65536"
      using that by simp_all
    ultimately have "48 + d = 45" using jschar_of_nat_inj by blast
    then show False by simp
  qed
  show ?case
  proof (cases "n < 10")
    case True
    then have "digits n = [of_nat (48 + n)]"
      by (subst digits.simps) simp
    with c [OF True] show ?thesis by auto
  next
    case False
    then have "digits n = digits (n div 10) @ [of_nat (48 + n mod 10)]"
      by (subst digits.simps) simp
    moreover have "(of_nat (48 + n mod 10) :: jschar) \<noteq> 0x2D"
      by (rule c) simp
    ultimately show ?thesis using "1.IH" [OF False] by auto
  qed
qed

text \<open>Two clock readings print the same only when they are the same.\<close>

lemma toString_inj: "toString i = toString j \<Longrightarrow> i = j"
proof -
  assume eq: "toString i = toString j"
  have hd_digit: "hd (digits k) \<noteq> 0x2D" for k
    using digits_no_minus [of k] digits_nonempty [of k] by (cases "digits k") auto
  consider "i < 0" "j < 0" | "i < 0" "\<not> j < 0" | "\<not> i < 0" "j < 0" | "\<not> i < 0" "\<not> j < 0"
    by blast
  then show ?thesis
  proof cases
    case 1
    with eq have "digits (nat (- i)) = digits (nat (- j))" by (simp add: toString_def)
    then have "nat (- i) = nat (- j)" by (rule digits_inj)
    with 1 show ?thesis by simp
  next
    case 2
    with eq have "0x2D # digits (nat (- i)) = digits (nat j)" by (simp add: toString_def)
    then have "hd (digits (nat j)) = 0x2D" by (metis list.sel(1))
    with hd_digit show ?thesis by blast
  next
    case 3
    with eq have "digits (nat i) = 0x2D # digits (nat (- j))" by (simp add: toString_def)
    then have "hd (digits (nat i)) = 0x2D" by (metis list.sel(1))
    with hd_digit show ?thesis by blast
  next
    case 4
    with eq have "digits (nat i) = digits (nat j)" by (simp add: toString_def)
    then have "nat i = nat j" by (rule digits_inj)
    with 4 show ?thesis by simp
  qed
qed

lemma assemble_id_language:
  "assemble svc clk n lang parsed = (a, m) \<Longrightarrow>
     id_article a = toString (now clk) \<and> language a = lang"
  by (auto simp: assemble_def Let_def split: list.splits prod.splits if_splits)

text \<open>
  Whenever the answer of the service parses, the article returned has the decimal clock
  reading as its identifier and the requested language, whatever the payload held in
  those two fields.
\<close>

lemma generate_id_language:
  assumes "svc n (ArticleRequest topic_arg lang) = Reply (Some txt) ps" "txt \<noteq> []"
    and "parse (cleanJson txt) = Some parsed"
  shows "\<exists>a m. generateRewikiArticle parse svc clk n topic_arg lang = (Inr a, m)
           \<and> id_article a = toString (now clk) \<and> language a = lang"
proof -
  obtain a m where a: "assemble svc clk (Suc n) lang parsed = (a, m)"
    by (cases "assemble svc clk (Suc n) lang parsed")
  then have "id_article a = toString (now clk) \<and> language a = lang"
    by (rule assemble_id_language)
  moreover from assms a have "generateRewikiArticle parse svc clk n topic_arg lang = (Inr a, m)"
    by (simp add: generateRewikiArticle_def generateContent_def truthy_def)
  ultimately show ?thesis by blast
qed

text \<open>Two calls return different identifiers exactly when their clock readings differ.\<close>

lemma generate_ids_differ_iff:
  assumes "generateRewikiArticle parse svc clk n topic_arg lang = (Inr a, m)"
    and "generateRewikiArticle parse' svc' clk' n' topic_arg' lang' = (Inr a', m')"
  shows "id_article a \<noteq> id_article a' \<longleftrightarrow> now clk \<noteq> now clk'"
proof -
  have id: "id_article b = toString (now c)"
    if "generateRewikiArticle p s c k tp l = (Inr b, k')" for p s c k tp l b k'
    using that
    by (auto simp: generateRewikiArticle_def generateContent_def
          split: reply.splits option.splits if_splits prod.splits
          dest: assemble_id_language)
  from id [OF assms(1)] id [OF assms(2)] show ?thesis
    using toString_inj by auto
qed

text \<open>
  C1. The identifier is the clock reading in milliseconds and nothing else. Two calls
  that read the same millisecond, here for the topics Moon and Mars, both succeed and
  return the same identifier; each article carries the requested language, not the
  one of the payload.
\<close>

theorem generateRewikiArticle_id_collision:
  "map_sum id (\<lambda>a. (id_article a, topic a, language a))
     (fst (generateRewikiArticle sample_parse sample_service
             \<lparr>now = 1700000000000, localeDate = js ''11/14/2023''\<rparr> 0 (js ''Moon'') en))
     = Inr (js ''1700000000000'', js ''Moon'', en)
   \<and> map_sum id (\<lambda>a. (id_article a, topic a, language a))
     (fst (generateRewikiArticle sample_parse sample_service
             \<lparr>now = 1700000000000, localeDate = js ''11/14/2023''\<rparr> 1 (js ''Mars'') en))
     = Inr (js ''1700000000000'', js ''Mars'', en)"
proof -
  have t: "toString 1700000000000 = js ''1700000000000''"
    by (simp add: toString_def digits.simps js_def)
  show ?thesis
    by (simp add: sample_run t sample_article_def)
qed


section \<open>History\<close>

lemma history_addToHistory:
  "history (addToHistory f st a) = take 10 (a # filter (\<lambda>b. topic b \<noteq> topic a) (history st))"
  by (simp add: addToHistory_def Let_def)

text \<open>Every insertion overwrites the stored list with the whole new list.\<close>

lemma localStorage_addToHistory:
  "localStorage (addToHistory f st a) =
     (localStorage st)(js ''rewiki_history'' \<mapsto> f (history (addToHistory f st a)))"
  by (simp add: addToHistory_def Let_def)

lemma addAll_snoc: "addAll f st (arts @ [a]) = addToHistory f (addAll f st arts) a"
  by (simp add: addAll_def)

lemma filter_other_topic:
  "t \<notin> topic ` set xs \<Longrightarrow> filter (\<lambda>b. topic b \<noteq> t) xs = xs"
  by (induction xs) auto

lemma distinct_latest_per_topic: "distinct (map topic (latest_per_topic xs))"
proof (induction xs)
  case Nil
  show ?case by simp
next
  case (Cons a xs)
  have "topic a \<notin> topic ` set (filter (\<lambda>b. topic b \<noteq> topic a) (latest_per_topic xs))"
    by auto
  moreover have "distinct (map topic (filter (\<lambda>b. topic b \<noteq> topic a) (latest_per_topic xs)))"
    using Cons.IH by (simp add: distinct_map_filter)
  ultimately show ?case by simp
qed

lemma latest_per_topic_id: "distinct (map topic xs) \<Longrightarrow> latest_per_topic xs = xs"
proof (induction xs)
  case Nil
  show ?case by simp
next
  case (Cons a xs)
  then have "filter (\<lambda>b. topic b \<noteq> topic a) xs = xs"
    by (simp add: filter_other_topic)
  with Cons show ?case by simp
qed

text \<open>
  Dropping one topic from a list without repeated topics removes at most one entry, so
  the first \<open>n\<close> survivors are among the first \<open>n + 1\<close> entries.
\<close>

lemma take_filter_one:
  "distinct (map topic ys) \<Longrightarrow>
   take n (filter (\<lambda>b. topic b \<noteq> t) (take (Suc n) ys)) = take n (filter (\<lambda>b. topic b \<noteq> t) ys)"
proof (induction ys arbitrary: n)
  case Nil
  show ?case by simp
next
  case (Cons y ys)
  show ?case
  proof (cases "topic y = t")
    case True
    with Cons.prems have notin: "t \<notin> topic ` set ys"
      by simp
    then have "filter (\<lambda>b. topic b \<noteq> t) ys = ys"
      by (rule filter_other_topic)
    moreover from notin have "t \<notin> topic ` set (take n ys)"
      by (auto dest: in_set_takeD)
    then have "filter (\<lambda>b. topic b \<noteq> t) (take n ys) = take n ys"
      by (rule filter_other_topic)
    ultimately show ?thesis using True by simp
  next
    case False
    show ?thesis
    proof (cases n)
      case 0
      then show ?thesis by simp
    next
      case (Suc m)
      with False Cons show ?thesis by simp
    qed
  qed
qed

lemma history_addAll:
  assumes "distinct (map topic (history st))" "length (history st) \<le> 10"
  shows "history (addAll f st arts) = spec_history (history st) arts"
proof (induction arts rule: rev_induct)
  case Nil
  from assms show ?case by (simp add: addAll_def spec_history_def latest_per_topic_id)
next
  case (snoc a arts)
  let ?ys = "latest_per_topic (rev arts @ history st)"
  have "history (addAll f st (arts @ [a])) =
          take 10 (a # filter (\<lambda>b. topic b \<noteq> topic a) (take 10 ?ys))"
    using snoc by (simp add: addAll_snoc history_addToHistory spec_history_def)
  also have "\<dots> = a # take 9 (filter (\<lambda>b. topic b \<noteq> topic a) (take (Suc 9) ?ys))"
    by (simp add: take_Cons')
  also have "\<dots> = a # take 9 (filter (\<lambda>b. topic b \<noteq> topic a) ?ys)"
    by (simp only: take_filter_one [OF distinct_latest_per_topic])
  also have "\<dots> = spec_history (history st) (arts @ [a])"
    by (simp add: take_Cons' spec_history_def)
  finally show ?case .
qed

lemma distinct_spec_history: "distinct (map topic (spec_history loaded arts))"
  unfolding spec_history_def take_map [symmetric]
  by (rule distinct_take) (rule distinct_latest_per_topic)

lemma hd_spec_history: "hd (spec_history loaded (arts @ [a])) = a"
  by (simp add: spec_history_def take_Cons')

lemma localStorage_addAll_other:
  "k \<noteq> js ''rewiki_history'' \<Longrightarrow> localStorage (addAll f st arts) k = localStorage st k"
  by (induction arts rule: rev_induct)
     (simp_all add: addAll_snoc localStorage_addToHistory, simp add: addAll_def)

text \<open>
  C8. The run starts from a history without repeated topics and with at most ten
  entries (the empty list of a fresh start, or a list this code stored earlier) and makes
  any sequence of insertions. Afterwards the history has at most ten entries and no
  repeated topic, and it is the list of the specification: most recent first, one entry
  per topic, the latest one. After at least one insertion the last article inserted is
  at the head, and the storage key \<open>rewiki_history\<close> holds the serialisation of the
  whole list; no other key is touched.
\<close>

theorem history_invariant:
  assumes "distinct (map topic (history st))" "length (history st) \<le> 10"
  shows "length (history (addAll stringify st arts)) \<le> 10
       \<and> distinct (map topic (history (addAll stringify st arts)))
       \<and> history (addAll stringify st arts) = spec_history (history st) arts
       \<and> (arts \<noteq> [] \<longrightarrow>
            hd (history (addAll stringify st arts)) = last arts
            \<and> localStorage (addAll stringify st arts) (js ''rewiki_history'')
                = Some (stringify (history (addAll stringify st arts))))
       \<and> (\<forall>k. k \<noteq> js ''rewiki_history'' \<longrightarrow>
            localStorage (addAll stringify st arts) k = localStorage st k)"
proof -
  note h = history_addAll [OF assms, of stringify arts]
  have 1: "length (history (addAll stringify st arts)) \<le> 10"
    unfolding h by (simp add: spec_history_def)
  have 2: "distinct (map topic (history (addAll stringify st arts)))"
    unfolding h by (rule distinct_spec_history)
  have 3: "hd (history (addAll stringify st arts)) = last arts
           \<and> localStorage (addAll stringify st arts) (js ''rewiki_history'')
               = Some (stringify (history (addAll stringify st arts)))" if "arts \<noteq> []"
  proof -
    from that obtain bs a where arts: "arts = bs @ [a]"
      by (cases arts rule: rev_cases) auto
    have "hd (history (addAll stringify st arts)) = last arts"
      unfolding h by (simp add: arts hd_spec_history)
    moreover have "localStorage (addAll stringify st arts) (js ''rewiki_history'')
               = Some (stringify (history (addAll stringify st arts)))"
      by (simp add: arts addAll_snoc localStorage_addToHistory)
    ultimately show ?thesis by simp
  qed
  from 1 2 h 3 localStorage_addAll_other show ?thesis by blast
qed

theorem history_invariant_witness:
  "distinct (map topic (history (initial_app Map.empty)))
   \<and> length (history (initial_app Map.empty)) \<le> 10
   \<and> history (addAll (\<lambda>h. concat (map id_article h)) (initial_app Map.empty)
        [(sample_article (js ''Moon''))\<lparr>id_article := js ''1''\<rparr>,
         (sample_article (js ''Mars''))\<lparr>id_article := js ''2''\<rparr>,
         (sample_article (js ''Moon''))\<lparr>id_article := js ''3''\<rparr>])
     = [(sample_article (js ''Moon''))\<lparr>id_article := js ''3''\<rparr>,
        (sample_article (js ''Mars''))\<lparr>id_article := js ''2''\<rparr>]
   \<and> localStorage (addAll (\<lambda>h. concat (map id_article h)) (initial_app Map.empty)
        [(sample_article (js ''Moon''))\<lparr>id_article := js ''1''\<rparr>,
         (sample_article (js ''Mars''))\<lparr>id_article := js ''2''\<rparr>,
         (sample_article (js ''Moon''))\<lparr>id_article := js ''3''\<rparr>]) (js ''rewiki_history'')
     = Some (js ''32'')"
proof -
  have h1: "distinct (map topic (history (initial_app Map.empty)))"
    and h2: "length (history (initial_app Map.empty)) \<le> 10"
    by (simp_all add: initial_app_def)
  have t: "topic (sample_article tp) = tp" for tp
    by (simp add: sample_article_def)
  have ne: "js ''Mars'' \<noteq> js ''Moon''"
    by (simp add: js_def)
  show ?thesis
    using history_invariant [OF h1 h2, of "\<lambda>h. concat (map id_article h)"
        "[(sample_article (js ''Moon''))\<lparr>id_article := js ''1''\<rparr>,
          (sample_article (js ''Mars''))\<lparr>id_article := js ''2''\<rparr>,
          (sample_article (js ''Moon''))\<lparr>id_article := js ''3''\<rparr>]"] h1 h2 ne
    by (simp add: spec_history_def initial_app_def t) (simp add: js_def)
qed


end
